theory Spec2Isabelle
  imports Main "HOL-Library.Sublist" "HOL-Library.AList"
begin

section \<open>Go library functions the wrapper calls\<close>

text \<open>
  The package \<open>gcs\<close> (gcs.go) is a thin layer over the Go standard library and the
  cloud storage client. Strings are byte sequences, as in Go; \<open>char\<close> is a byte.
  The functions of this section are the library functions gcs.go calls, modelled from
  their documented behaviour.
\<close>

type_synonym bytes = "char list"

text \<open>
  \<open>strings.TrimRight(s, cutset)\<close>: \<open>s\<close> without its trailing characters that occur in
  \<open>cutset\<close>. The cutset of gcs.go is ASCII, so trimming bytes and trimming code points
  agree.
\<close>

definition TrimRight :: "string \<Rightarrow> string \<Rightarrow> string" where
  "TrimRight s cutset = rev (dropWhile (\<lambda>c. c \<in> set cutset) (rev s))"

text \<open>\<open>strings.Join(elems, sep)\<close>.\<close>

fun strings_Join :: "string list \<Rightarrow> string \<Rightarrow> string" where
  "strings_Join [] sep = []"
| "strings_Join [e] sep = e"
| "strings_Join (e # es) sep = e @ sep @ strings_Join es sep"

text \<open>
  The elements of a slash-separated path: the maximal runs of characters other than
  \<open>/\<close>, empty runs included.
\<close>

fun elements :: "string \<Rightarrow> string list" where
  "elements [] = [[]]"
| "elements (c # cs) =
     (if c = CHR ''/'' then [] # elements cs
      else (case elements cs of [] \<Rightarrow> [[c]] | e # es \<Rightarrow> (c # e) # es))"

text \<open>
  \<open>path.Clean\<close> reads the path element by element and keeps the cleaned path in a
  buffer. \<open>clean_elem\<close> is one round of its loop on the buffer's elements, the last
  written element first: an empty element and \<open>.\<close> are skipped; \<open>..\<close> removes the
  last element when there is one that is not itself \<open>..\<close>, is dropped at the root of a
  rooted path, and is appended otherwise; any other element is appended.
\<close>

fun clean_elem :: "bool \<Rightarrow> string list \<Rightarrow> string \<Rightarrow> string list" where
  "clean_elem rooted out e =
     (if e = [] \<or> e = ''.'' then out
      else if e = ''..'' then
        (case out of
           [] \<Rightarrow> if rooted then [] else [e]
         | x # xs \<Rightarrow> if x = ''..'' then e # out else xs)
      else e # out)"

definition Clean :: "string \<Rightarrow> string" where
  "Clean p =
     (if p = [] then ''.''
      else
        (let rooted = (hd p = CHR ''/'');
             out = rev (foldl (clean_elem rooted) [] (elements p))
         in if rooted then CHR ''/'' # strings_Join out ''/''
            else if out = [] then ''.''
            else strings_Join out ''/''))"

text \<open>
  \<open>path.Join(elem...)\<close>: the elements from the first non-empty one on, joined with
  slashes and cleaned; the empty string when every element is empty.
\<close>

definition Join :: "string list \<Rightarrow> string" where
  "Join elem =
     (case dropWhile (\<lambda>e. e = []) elem of
        [] \<Rightarrow> []
      | es \<Rightarrow> Clean (strings_Join es ''/''))"

section \<open>The object store, the local file system and their failures\<close>

text \<open>
  Errors are values. \<open>ErrObjectNotExist\<close> is the storage client's error for an absent
  object; the others stand for the failures of the service, the network and the local
  file system.
\<close>

datatype error = ErrObjectNotExist | ErrPermission | ErrNetwork | ErrLocalFile | ErrStream

text \<open>
  How a call of a Go function ends: it returns, it panics (a nil pointer is dereferenced),
  or the process exits (\<open>log.Fatalf\<close>).
\<close>

datatype 'a outcome = Returns 'a | Panics | Exits error

text \<open>\<open>storage.ObjectAttrs\<close>, with the two fields gcs.go reads.\<close>

record ObjectAttrs =
  Prefix :: string
  Name :: string

text \<open>The streams an operation can hold open, and the calls that leave gcs.go.\<close>

datatype stream =
    LocalFile string
  | RemoteReader string string
  | RemoteWriter string string

datatype event =
    FetchAttrs string string
  | OpenLocal string
  | OpenReader string string
  | OpenWriter string string
  | Transfer nat
  | Close stream
  | Query string string string

text \<open>
  The world outside the process: the objects of the store by (bucket, path), the local
  files by path, the streams that are open, and the calls made so far, oldest first.
\<close>

record world =
  objects :: "((string \<times> string) \<times> bytes) list"
  files :: "(string \<times> bytes) list"
  opened :: "stream list"
  trace :: "event list"

text \<open>
  What fails in a run is decided outside the program: a metadata fetch can be refused,
  a reader or a local file can fail to open, a transfer can break after some bytes, the
  flush at the close of a writer can fail, and the listing iterator can fail after some
  results.
\<close>

record env =
  attrs_fault :: "string \<Rightarrow> string \<Rightarrow> error option"
  reader_fault :: "string \<Rightarrow> string \<Rightarrow> error option"
  file_fault :: "string \<Rightarrow> error option"
  copy_fault :: "(nat \<times> error) option"
  close_fault :: "error option"
  iter_fault :: "(nat \<times> error) option"

definition log_event :: "event \<Rightarrow> world \<Rightarrow> world" where
  "log_event ev w = w\<lparr>trace := trace w @ [ev]\<rparr>"

definition open_stream :: "stream \<Rightarrow> world \<Rightarrow> world" where
  "open_stream s w = w\<lparr>opened := s # opened w\<rparr>"

definition release_stream :: "stream \<Rightarrow> world \<Rightarrow> world" where
  "release_stream s w = log_event (Close s) (w\<lparr>opened := remove1 s (opened w)\<rparr>)"

text \<open>
  \<open>ObjectHandle.Attrs\<close>: one metadata fetch. It fails when the service refuses the
  call or the object is absent.
\<close>

definition handle_Attrs :: "env \<Rightarrow> world \<Rightarrow> string \<Rightarrow> string \<Rightarrow> error option \<times> world" where
  "handle_Attrs en w b p =
     ((case attrs_fault en b p of
         Some e \<Rightarrow> Some e
       | None \<Rightarrow> (case map_of (objects w) (b, p) of
                    None \<Rightarrow> Some ErrObjectNotExist
                  | Some d \<Rightarrow> None)),
      log_event (FetchAttrs b p) w)"

text \<open>
  \<open>ObjectHandle.NewReader\<close> returns an open reader, which holds the stream and the
  bytes it will deliver, or an error together with a nil reader.
\<close>

type_synonym reader = "stream \<times> bytes"

definition handle_NewReader ::
  "env \<Rightarrow> world \<Rightarrow> string \<Rightarrow> string \<Rightarrow> (error + reader) \<times> world" where
  "handle_NewReader en w b p =
     (case reader_fault en b p of
        Some e \<Rightarrow> (Inl e, log_event (OpenReader b p) w)
      | None \<Rightarrow>
          (case map_of (objects w) (b, p) of
             None \<Rightarrow> (Inl ErrObjectNotExist, log_event (OpenReader b p) w)
           | Some d \<Rightarrow>
               (Inr (RemoteReader b p, d),
                open_stream (RemoteReader b p) (log_event (OpenReader b p) w))))"

text \<open>
  \<open>(*storage.Reader).Close\<close> on a pointer: \<open>None\<close> is the nil reader. The method reads
  a field of its receiver, so on nil it panics with a nil pointer dereference. On an
  open reader it releases the stream.
\<close>

definition Reader_Close :: "reader option \<Rightarrow> world \<Rightarrow> unit outcome \<times> world" where
  "Reader_Close r w =
     (case r of
        None \<Rightarrow> (Panics, w)
      | Some (s, d) \<Rightarrow> (Returns (), release_stream s w))"

text \<open>
  A deferred call runs when the function leaves, after the result is set; when the
  deferred call panics, the function panics instead of returning the result.
\<close>

definition deferred ::
  "(world \<Rightarrow> unit outcome \<times> world) \<Rightarrow> 'a outcome \<times> world \<Rightarrow> 'a outcome \<times> world" where
  "deferred cl rw =
     (case cl (snd rw) of
        (Returns u, w') \<Rightarrow> (fst rw, w')
      | (Panics, w') \<Rightarrow> (Panics, w')
      | (Exits e, w') \<Rightarrow> (Exits e, w'))"

text \<open>
  What a transfer moves: everything, or the first \<open>n\<close> bytes and an error when it
  breaks. \<open>ioutil.ReadAll\<close> returns the bytes read so far with the error.
\<close>

definition transferred :: "env \<Rightarrow> bytes \<Rightarrow> bytes \<times> error option" where
  "transferred en d =
     (case copy_fault en of
        None \<Rightarrow> (d, None)
      | Some (n, e) \<Rightarrow> (take n d, Some e))"

definition ReadAll :: "env \<Rightarrow> world \<Rightarrow> reader \<Rightarrow> (bytes \<times> error option) \<times> world" where
  "ReadAll en w r =
     (transferred en (snd r), log_event (Transfer (length (fst (transferred en (snd r))))) w)"

text \<open>
  \<open>os.OpenFile(name, O_RDWR|O_CREATE, 0755)\<close> creates the file when it is absent and
  does not truncate it; \<open>os.Open(name)\<close> opens an existing file for reading.
\<close>

definition os_OpenFile :: "env \<Rightarrow> world \<Rightarrow> string \<Rightarrow> (error + string) \<times> world" where
  "os_OpenFile en w name =
     (case file_fault en name of
        Some e \<Rightarrow> (Inl e, log_event (OpenLocal name) w)
      | None \<Rightarrow>
          (Inr name,
           open_stream (LocalFile name)
             (log_event (OpenLocal name)
                (w\<lparr>files := (case map_of (files w) name of
                                None \<Rightarrow> AList.update name [] (files w)
                              | Some d \<Rightarrow> files w)\<rparr>))))"

definition os_Open :: "env \<Rightarrow> world \<Rightarrow> string \<Rightarrow> (error + bytes) \<times> world" where
  "os_Open en w name =
     (case file_fault en name of
        Some e \<Rightarrow> (Inl e, log_event (OpenLocal name) w)
      | None \<Rightarrow>
          (case map_of (files w) name of
             None \<Rightarrow> (Inl ErrLocalFile, log_event (OpenLocal name) w)
           | Some d \<Rightarrow> (Inr d, open_stream (LocalFile name) (log_event (OpenLocal name) w))))"

text \<open>
  \<open>io.Copy\<close> into a local file opened without truncation writes from offset 0 and
  leaves what the file held beyond the bytes written.
\<close>

definition write_file :: "string \<Rightarrow> bytes \<Rightarrow> world \<Rightarrow> world" where
  "write_file name d w =
     w\<lparr>files := AList.update name
          (d @ drop (length d) (case map_of (files w) name of None \<Rightarrow> [] | Some old \<Rightarrow> old))
          (files w)\<rparr>"

definition Copy_to_file :: "env \<Rightarrow> world \<Rightarrow> string \<Rightarrow> reader \<Rightarrow> error option \<times> world" where
  "Copy_to_file en w name src =
     (snd (transferred en (snd src)),
      log_event (Transfer (length (fst (transferred en (snd src)))))
        (write_file name (fst (transferred en (snd src))) w))"

text \<open>
  A \<open>*storage.Writer\<close> buffers what is written to it; the object appears in the store
  when \<open>Close\<close> flushes the buffer. \<open>Close\<close> releases the stream whether or not the flush
  succeeds, and returns the flush error.
\<close>

definition Copy_to_writer :: "env \<Rightarrow> world \<Rightarrow> bytes \<Rightarrow> (bytes \<times> error option) \<times> world" where
  "Copy_to_writer en w d =
     (transferred en d, log_event (Transfer (length (fst (transferred en d)))) w)"

definition Writer_Close ::
  "env \<Rightarrow> string \<Rightarrow> string \<Rightarrow> bytes \<Rightarrow> world \<Rightarrow> error option \<times> world" where
  "Writer_Close en b p buf w =
     (case close_fault en of
        Some e \<Rightarrow> (Some e, release_stream (RemoteWriter b p) w)
      | None \<Rightarrow>
          (None,
           release_stream (RemoteWriter b p)
             (w\<lparr>objects := AList.update (b, p) buf (objects w)\<rparr>)))"

text \<open>
  The listing query of the store (\<open>storage.Query\<close> with \<open>Prefix\<close> and \<open>Delimiter\<close>).
  Modelled from the spec: the service is outside the repository. It selects the objects
  of the bucket whose name begins with the prefix. With an empty delimiter each of them
  is a result. With a delimiter, an object whose name has no delimiter after the prefix
  is a result, and the others are represented by their name up to and including the
  first delimiter after the prefix, once each, as a result that carries only a
  \<open>Prefix\<close>.
\<close>

fun upto_delim :: "string \<Rightarrow> string \<Rightarrow> string option" where
  "upto_delim d [] = None"
| "upto_delim d (c # cs) =
     (if prefix d (c # cs) then Some d else map_option ((#) c) (upto_delim d cs))"

definition bucket_names :: "world \<Rightarrow> string \<Rightarrow> string list" where
  "bucket_names w b = remdups (map snd (filter (\<lambda>k. fst k = b) (map fst (objects w))))"

definition object_result :: "string \<Rightarrow> ObjectAttrs" where
  "object_result n = \<lparr>Prefix = [], Name = n\<rparr>"

definition prefix_result :: "string \<Rightarrow> ObjectAttrs" where
  "prefix_result q = \<lparr>Prefix = q, Name = []\<rparr>"

definition query_results :: "string \<Rightarrow> string \<Rightarrow> string list \<Rightarrow> ObjectAttrs list" where
  "query_results pre delim names =
     (let matching = filter (prefix pre) names in
      if delim = [] then map object_result matching
      else
        map object_result
          (filter (\<lambda>n. upto_delim delim (drop (length pre) n) = None) matching)
        @ map prefix_result
            (remdups (List.map_filter
               (\<lambda>n. map_option ((@) pre) (upto_delim delim (drop (length pre) n)))
               matching)))"

text \<open>
  What a call of \<open>it.Next()\<close> gives: a result or an error. The iterator is the sequence
  of what its calls will give; at its end \<open>Next\<close> gives \<open>iterator.Done\<close>. A bucket holds
  finitely many objects, so the sequence is finite.
\<close>

datatype next_result = Item ObjectAttrs | Failure error

definition bucket_Objects ::
  "env \<Rightarrow> world \<Rightarrow> string \<Rightarrow> string \<Rightarrow> string \<Rightarrow> next_result list \<times> world" where
  "bucket_Objects en w b pre delim =
     ((case iter_fault en of
         None \<Rightarrow> map Item (query_results pre delim (bucket_names w b))
       | Some (n, e) \<Rightarrow>
           map Item (take n (query_results pre delim (bucket_names w b))) @ [Failure e]),
      log_event (Query b pre delim) w)"

section \<open>The operations of gcs.go\<close>

text \<open>
  The operations run after \<open>Authenticate\<close> has set the client, as the spec requires of
  every caller. Each takes the failures of the run and the world, and returns how it
  ended and the world it leaves.
\<close>

definition Exist :: "env \<Rightarrow> world \<Rightarrow> string \<Rightarrow> string \<Rightarrow> bool \<times> world" where
  "Exist en w bucketName filePath =
     (case handle_Attrs en w bucketName filePath of
        (err, w1) \<Rightarrow> (err = None, w1))"

text \<open>The loop of \<open>getObjectsAttrs\<close>, with \<open>allAttrs\<close> as accumulator.\<close>

fun iterate :: "next_result list \<Rightarrow> ObjectAttrs list \<Rightarrow> ObjectAttrs list outcome" where
  "iterate [] allAttrs = Returns allAttrs"
| "iterate (Failure err # it) allAttrs = Exits err"
| "iterate (Item attrs # it) allAttrs = iterate it (allAttrs @ [attrs])"

definition getObjectsAttrs ::
  "env \<Rightarrow> world \<Rightarrow> string \<Rightarrow> string \<Rightarrow> string \<Rightarrow> ObjectAttrs list outcome \<times> world" where
  "getObjectsAttrs en w bucketName storagePath delim =
     (case bucket_Objects en w bucketName storagePath delim of
        (it, w1) \<Rightarrow> (iterate it [], w1))"

text \<open>The loop of \<open>list\<close>, with \<open>filePaths\<close> as accumulator.\<close>

fun join_all :: "ObjectAttrs list \<Rightarrow> string list \<Rightarrow> string list" where
  "join_all [] filePaths = filePaths"
| "join_all (attrs # objsAttrs) filePaths =
     join_all objsAttrs (filePaths @ [Join [Prefix attrs, Name attrs]])"

definition list_paths ::
  "env \<Rightarrow> world \<Rightarrow> string \<Rightarrow> string \<Rightarrow> string \<Rightarrow> string list outcome \<times> world" where
  "list_paths en w bucketName storagePath exclusionFilter =
     (case getObjectsAttrs en w bucketName storagePath exclusionFilter of
        (Returns objsAttrs, w1) \<Rightarrow> (Returns (join_all objsAttrs []), w1)
      | (Panics, w1) \<Rightarrow> (Panics, w1)
      | (Exits e, w1) \<Rightarrow> (Exits e, w1))"

definition ListDirectChildren ::
  "env \<Rightarrow> world \<Rightarrow> string \<Rightarrow> string \<Rightarrow> string list outcome \<times> world" where
  "ListDirectChildren en w bucketName storagePath =
     list_paths en w bucketName (TrimRight storagePath '' /'' @ ''/'') ''/''"

definition Download ::
  "env \<Rightarrow> world \<Rightarrow> string \<Rightarrow> string \<Rightarrow> string \<Rightarrow> error option outcome \<times> world" where
  "Download en w bucketName srcPath dstPath =
     (case handle_Attrs en w bucketName srcPath of
        (Some err, w1) \<Rightarrow> (Returns (Some err), w1)
      | (None, w1) \<Rightarrow>
          (case os_OpenFile en w1 dstPath of
             (Inl err, w2) \<Rightarrow> (Returns (Some err), w2)
           | (Inr dst, w2) \<Rightarrow>
               (case handle_NewReader en w2 bucketName srcPath of
                  (Inl err, w3) \<Rightarrow> (Returns (Some err), w3)
                | (Inr src, w3) \<Rightarrow>
                    deferred (Reader_Close (Some src))
                      (case Copy_to_file en w3 dst src of
                         (Some err, w4) \<Rightarrow> (Returns (Some err), w4)
                       | (None, w4) \<Rightarrow> (Returns None, w4)))))"

text \<open>
  In \<open>Upload\<close> the deferred \<open>dst.Close()\<close> is a statement: the error it returns is
  dropped.
\<close>

definition Upload ::
  "env \<Rightarrow> world \<Rightarrow> string \<Rightarrow> string \<Rightarrow> string \<Rightarrow> error option outcome \<times> world" where
  "Upload en w bucketName dstPath srcPath =
     (case os_Open en w srcPath of
        (Inl err, w1) \<Rightarrow> (Returns (Some err), w1)
      | (Inr src, w1) \<Rightarrow>
          (case Copy_to_writer en
                  (open_stream (RemoteWriter bucketName dstPath)
                     (log_event (OpenWriter bucketName dstPath) w1)) src of
             ((buf, err), w2) \<Rightarrow>
               deferred
                 (\<lambda>w'. case Writer_Close en bucketName dstPath buf w' of
                          (cerr, w'') \<Rightarrow> (Returns (), w''))
                 (case err of
                    Some e \<Rightarrow> (Returns (Some e), w2)
                  | None \<Rightarrow> (Returns None, w2))))"

definition NewReader ::
  "env \<Rightarrow> world \<Rightarrow> string \<Rightarrow> string \<Rightarrow> (error + reader) \<times> world" where
  "NewReader en w bucketName filePath =
     (case handle_Attrs en w bucketName filePath of
        (Some err, w1) \<Rightarrow> (Inl err, w1)
      | (None, w1) \<Rightarrow> handle_NewReader en w1 bucketName filePath)"

text \<open>
  In \<open>Read\<close> the call \<open>f.Close()\<close> is deferred before \<open>err\<close> is looked at, so it also
  runs when \<open>NewReader\<close> has returned an error and \<open>f\<close> is nil.
\<close>

definition Read ::
  "env \<Rightarrow> world \<Rightarrow> string \<Rightarrow> string \<Rightarrow> (bytes \<times> error option) outcome \<times> world" where
  "Read en w bucketName filePath =
     (case NewReader en w bucketName filePath of
        (Inl err, w1) \<Rightarrow>
          deferred (Reader_Close None) (Returns ([], Some err), w1)
      | (Inr f, w1) \<Rightarrow>
          deferred (Reader_Close (Some f))
            (case ReadAll en w1 f of
               ((contents, Some err), w2) \<Rightarrow> (Returns (contents, Some err), w2)
             | ((contents, None), w2) \<Rightarrow> (Returns (contents, None), w2)))"

section \<open>Notions used in the statements\<close>

text \<open>
  The immediate children a delimited query reports: the objects directly under the
  prefix, and the sub-prefixes that stand for the deeper ones.
\<close>

definition direct_items :: "string \<Rightarrow> string list \<Rightarrow> string list" where
  "direct_items pre names =
     filter (\<lambda>n. upto_delim ''/'' (drop (length pre) n) = None) (filter (prefix pre) names)"

definition direct_subs :: "string \<Rightarrow> string list \<Rightarrow> string list" where
  "direct_subs pre names =
     remdups (List.map_filter
       (\<lambda>n. map_option ((@) pre) (upto_delim ''/'' (drop (length pre) n)))
       (filter (prefix pre) names))"

text \<open>The world with only the objects whose name begins with \<open>pre\<close>.\<close>

definition under :: "string \<Rightarrow> world \<Rightarrow> world" where
  "under pre w = w\<lparr>objects := filter (\<lambda>(k, d). prefix pre (snd k)) (objects w)\<rparr>"

text \<open>
  A name is ordinary when none of its elements is empty, \<open>.\<close> or \<open>..\<close>; a string has
  adjacent slashes when it contains \<open>//\<close>; the elements of a cleaned path are plain:
  not empty and free of slashes.
\<close>

definition ordinary :: "string \<Rightarrow> bool" where
  "ordinary n = (\<forall>e\<in>set (elements n). e \<noteq> [] \<and> e \<noteq> ''.'' \<and> e \<noteq> ''..'')"

fun adjacent_slashes :: "string \<Rightarrow> bool" where
  "adjacent_slashes [] = False"
| "adjacent_slashes [c] = False"
| "adjacent_slashes (c # d # cs) = (c = CHR ''/'' \<and> d = CHR ''/'' \<or> adjacent_slashes (d # cs))"

definition plain_elems :: "string list \<Rightarrow> bool" where
  "plain_elems es = (\<forall>e\<in>set es. e \<noteq> [] \<and> CHR ''/'' \<notin> set e)"

subsection \<open>Concrete runs\<close>

definition no_faults :: env where
  "no_faults =
     \<lparr>attrs_fault = (\<lambda>b p. None), reader_fault = (\<lambda>b p. None), file_fault = (\<lambda>n. None),
      copy_fault = None, close_fault = None, iter_fault = None\<rparr>"

definition env_iter_fails :: env where
  "env_iter_fails = no_faults\<lparr>iter_fault := Some (1, ErrNetwork)\<rparr>"

definition env_close_fails :: env where
  "env_close_fails = no_faults\<lparr>close_fault := Some ErrNetwork\<rparr>"

definition empty_world :: world where
  "empty_world = \<lparr>objects = [], files = [], opened = [], trace = []\<rparr>"

definition listing_world :: world where
  "listing_world =
     \<lparr>objects = [((''b'', ''foo/a.txt''), ''A''), ((''b'', ''foo/sub/c.txt''), ''C''),
                 ((''b'', ''foobar/x''), ''X'')],
      files = [], opened = [], trace = []\<rparr>"

definition nested_world :: world where
  "nested_world =
     \<lparr>objects = [((''b'', ''foo/a.txt''), ''A''), ((''b'', ''foo/sub/c.txt''), ''C''),
                 ((''b'', ''foo/sub/d/e''), ''E''), ((''c'', ''foo/zz''), ''Z'')],
      files = [], opened = [], trace = []\<rparr>"

definition spaced_world :: world where
  "spaced_world =
     \<lparr>objects = [((''b'', ''foo/ bar''), ''Y'')], files = [], opened = [], trace = []\<rparr>"

definition transfer_world :: world where
  "transfer_world =
     \<lparr>objects = [((''b'', ''obj''), ''old'')],
      files = [(''src'', ''new'')], opened = [], trace = []\<rparr>"

section \<open>Library facts\<close>

lemma TrimRight_append_cutset:
  "set t \<subseteq> set cs \<Longrightarrow> TrimRight (s @ t) cs = TrimRight s cs"
proof -
  assume a: "set t \<subseteq> set cs"
  have "dropWhile (\<lambda>c. c \<in> set cs) (rev t @ rev s) = dropWhile (\<lambda>c. c \<in> set cs) (rev s)"
    using a by (intro dropWhile_append2) auto
  then show ?thesis by (simp add: TrimRight_def)
qed

lemma TrimRight_id: "s = [] \<or> last s \<notin> set cs \<Longrightarrow> TrimRight s cs = s"
  by (cases s rule: rev_cases) (auto simp: TrimRight_def)

lemma elements_not_Nil: "elements s \<noteq> []"
  by (induction s) (auto split: list.splits)

lemma strings_Join_Cons:
  "es \<noteq> [] \<Longrightarrow> strings_Join (e # es) sep = e @ sep @ strings_Join es sep"
  by (cases es) simp_all

lemma strings_Join_elements: "strings_Join (elements s) ''/'' = s"
proof (induction s)
  case Nil
  show ?case by simp
next
  case (Cons c s)
  show ?case
  proof (cases "c = CHR ''/''")
    case True
    with Cons show ?thesis by (simp add: strings_Join_Cons elements_not_Nil)
  next
    case False
    obtain e es where e: "elements s = e # es"
      using elements_not_Nil [of s] by (cases "elements s") auto
    with Cons False show ?thesis by (cases es) auto
  qed
qed

lemma elements_append_slash: "elements (a @ CHR ''/'' # b) = elements a @ elements b"
proof (induction a)
  case Nil
  show ?case by simp
next
  case (Cons c a)
  obtain e es where e: "elements a = e # es"
    using elements_not_Nil [of a] by (cases "elements a") auto
  with Cons show ?case by (auto split: list.splits)
qed

lemma elements_slash_free: "e \<in> set (elements s) \<Longrightarrow> CHR ''/'' \<notin> set e"
proof (induction s arbitrary: e)
  case Nil
  then show ?case by simp
next
  case (Cons c s)
  then show ?case
    by (cases "elements s") (auto split: if_splits)
qed

subsection \<open>Cleaning an ordinary name changes nothing\<close>

lemma foldl_clean_ordinary:
  "\<forall>e\<in>set es. e \<noteq> [] \<and> e \<noteq> ''.'' \<and> e \<noteq> ''..'' \<Longrightarrow>
     foldl (clean_elem r) acc es = rev es @ acc"
  by (induction es arbitrary: acc) auto

lemma ordinary_not_rooted: "ordinary n \<Longrightarrow> n \<noteq> [] \<and> hd n \<noteq> CHR ''/''"
  by (cases n) (auto simp: ordinary_def)

lemma Clean_ordinary: "ordinary n \<Longrightarrow> Clean n = n"
  using ordinary_not_rooted [of n]
  by (simp add: Clean_def Let_def ordinary_def foldl_clean_ordinary elements_not_Nil
      strings_Join_elements)

lemma Clean_ordinary_slashes: "ordinary n \<Longrightarrow> Clean (n @ ''//'') = n"
proof -
  assume o: "ordinary n"
  have e: "elements (n @ ''//'') = elements n @ [[], []]"
    using elements_append_slash [of n "''/''"] by simp
  have "foldl (clean_elem False) [] (elements (n @ ''//'')) = rev (elements n)"
    using o by (simp add: e ordinary_def foldl_clean_ordinary)
  then show ?thesis
    using ordinary_not_rooted [OF o]
    by (simp add: Clean_def Let_def elements_not_Nil strings_Join_elements)
qed

lemma Join_ordinary: "ordinary n \<Longrightarrow> Join [[], n] = n \<and> Join [n @ ''/'', []] = n"
  using ordinary_not_rooted [of n] Clean_ordinary [of n] Clean_ordinary_slashes [of n]
  by (simp add: Join_def)

subsection \<open>A cleaned path has no adjacent slashes\<close>

lemma adjacent_slashes_append:
  "adjacent_slashes (a @ b) \<longleftrightarrow>
     adjacent_slashes a \<or> adjacent_slashes b
     \<or> (a \<noteq> [] \<and> b \<noteq> [] \<and> last a = CHR ''/'' \<and> hd b = CHR ''/'')"
proof (induction a rule: adjacent_slashes.induct)
  case 1
  then show ?case by simp
next
  case (2 c)
  then show ?case by (cases b) auto
next
  case (3 c d cs)
  then show ?case by auto
qed

lemma slash_free_no_adjacent: "CHR ''/'' \<notin> set e \<Longrightarrow> \<not> adjacent_slashes e"
  by (induction e rule: adjacent_slashes.induct) auto

lemma clean_elem_plain:
  "plain_elems out \<Longrightarrow> CHR ''/'' \<notin> set e \<Longrightarrow> plain_elems (clean_elem r out e)"
  by (cases out) (auto simp: plain_elems_def)

lemma foldl_clean_plain:
  "plain_elems out \<Longrightarrow> \<forall>e\<in>set es. CHR ''/'' \<notin> set e \<Longrightarrow>
     plain_elems (foldl (clean_elem r) out es)"
proof (induction es arbitrary: out)
  case Nil
  then show ?case by simp
next
  case (Cons e es)
  from Cons.prems have "plain_elems (clean_elem r out e)"
    by (intro clean_elem_plain) auto
  with Cons show ?case by simp
qed

lemma strings_Join_plain:
  "plain_elems es \<Longrightarrow> es \<noteq> [] \<Longrightarrow>
     \<not> adjacent_slashes (strings_Join es ''/'')
     \<and> strings_Join es ''/'' \<noteq> [] \<and> hd (strings_Join es ''/'') \<noteq> CHR ''/''"
proof (induction es)
  case Nil
  then show ?case by simp
next
  case (Cons e es)
  from Cons.prems have e: "e \<noteq> []" "CHR ''/'' \<notin> set e" and es: "plain_elems es"
    by (auto simp: plain_elems_def)
  from e have he: "hd e \<noteq> CHR ''/''" by (cases e) auto
  show ?case
  proof (cases "es = []")
    case True
    with e he show ?thesis by (simp add: slash_free_no_adjacent)
  next
    case False
    with Cons.IH es have ih: "\<not> adjacent_slashes (strings_Join es ''/'')"
      "strings_Join es ''/'' \<noteq> []" "hd (strings_Join es ''/'') \<noteq> CHR ''/''" by auto
    have j: "strings_Join (e # es) ''/'' = e @ CHR ''/'' # strings_Join es ''/''"
      using False by (simp add: strings_Join_Cons)
    have "\<not> adjacent_slashes (CHR ''/'' # strings_Join es ''/'')"
      using ih by (cases "strings_Join es ''/''") auto
    moreover have "last e \<noteq> CHR ''/''" using e by (metis last_in_set)
    ultimately have "\<not> adjacent_slashes (e @ CHR ''/'' # strings_Join es ''/'')"
      using e by (simp add: adjacent_slashes_append slash_free_no_adjacent)
    with j e he show ?thesis by simp
  qed
qed

lemma Clean_no_adjacent_slashes: "\<not> adjacent_slashes (Clean p)"
proof (cases "p = []")
  case True
  then show ?thesis by (simp add: Clean_def)
next
  case False
  define r where "r = (hd p = CHR ''/'')"
  define out where "out = rev (foldl (clean_elem r) [] (elements p))"
  have "plain_elems (foldl (clean_elem r) [] (elements p))"
    by (intro foldl_clean_plain) (auto simp: plain_elems_def elements_slash_free)
  then have po: "plain_elems out" by (simp add: out_def plain_elems_def)
  have c: "Clean p = (if r then CHR ''/'' # strings_Join out ''/''
                      else if out = [] then ''.'' else strings_Join out ''/'')"
    using False by (simp add: Clean_def Let_def r_def out_def)
  show ?thesis
  proof (cases "out = []")
    case True
    then show ?thesis by (simp add: c)
  next
    case ne: False
    from strings_Join_plain [OF po ne] show ?thesis
      by (cases "strings_Join out ''/''") (auto simp: c)
  qed
qed

lemma Join_no_adjacent_slashes: "\<not> adjacent_slashes (Join es)"
  by (simp add: Join_def Clean_no_adjacent_slashes split: list.splits)

section \<open>Facts about the listing query and the loops\<close>

lemma upto_slash_None: "upto_delim ''/'' s = None \<longleftrightarrow> CHR ''/'' \<notin> set s"
  by (induction s) auto

lemma upto_slash_Some:
  "CHR ''/'' \<notin> set r \<Longrightarrow> upto_delim ''/'' (r @ CHR ''/'' # rest) = Some (r @ ''/'')"
  by (induction r) auto

lemma upto_slash_SomeD:
  "upto_delim ''/'' s = Some u \<Longrightarrow>
     \<exists>r rest. s = r @ CHR ''/'' # rest \<and> CHR ''/'' \<notin> set r \<and> u = r @ ''/''"
proof (induction s arbitrary: u)
  case Nil
  then show ?case by simp
next
  case (Cons c s)
  show ?case
  proof (cases "c = CHR ''/''")
    case True
    with Cons.prems have "u = ''/''" by simp
    with True show ?thesis by (intro exI [of _ "[]"] exI [of _ s]) simp
  next
    case False
    with Cons.prems obtain v where v: "upto_delim ''/'' s = Some v" "u = c # v" by auto
    from Cons.IH [OF v(1)] obtain r rest where
      "s = r @ CHR ''/'' # rest" "CHR ''/'' \<notin> set r" "v = r @ ''/''" by blast
    with False v(2) show ?thesis
      by (intro exI [of _ "c # r"] exI [of _ rest]) simp
  qed
qed

lemma set_map_filter_iff: "y \<in> set (List.map_filter f xs) \<longleftrightarrow> (\<exists>x\<in>set xs. f x = Some y)"
  by (induction xs) (auto split: option.splits)

lemma query_results_flat:
  "query_results pre [] names = map object_result (filter (prefix pre) names)"
  by (simp add: query_results_def)

lemma query_results_slash:
  "query_results pre ''/'' names
     = map object_result (direct_items pre names) @ map prefix_result (direct_subs pre names)"
  by (simp add: query_results_def direct_items_def direct_subs_def)

lemma set_direct_items:
  "set (direct_items pre names)
     = {n \<in> set names. prefix pre n \<and> CHR ''/'' \<notin> set (drop (length pre) n)}"
  by (auto simp: direct_items_def upto_slash_None)

lemma set_direct_subs:
  "set (direct_subs pre names)
     = {pre @ r @ ''/'' | r. CHR ''/'' \<notin> set r \<and> (\<exists>n\<in>set names. prefix (pre @ r @ ''/'') n)}"
  (is "?L = ?R")
proof (rule set_eqI, rule iffI)
  fix q assume "q \<in> ?L"
  then obtain n u where n: "n \<in> set names" "prefix pre n"
    and u: "upto_delim ''/'' (drop (length pre) n) = Some u" and q: "q = pre @ u"
    by (auto simp: direct_subs_def set_map_filter_iff)
  from upto_slash_SomeD [OF u] obtain r rest where
    r: "drop (length pre) n = r @ CHR ''/'' # rest" "CHR ''/'' \<notin> set r" "u = r @ ''/''" by blast
  from n(2) obtain s where s: "n = pre @ s" by (auto simp: prefix_def)
  with r(1) have "n = pre @ r @ CHR ''/'' # rest" by simp
  then have "prefix (pre @ r @ ''/'') n" by (simp add: prefix_def)
  with n(1) r q show "q \<in> ?R" by blast
next
  fix q assume "q \<in> ?R"
  then obtain r n where r: "q = pre @ r @ ''/''" "CHR ''/'' \<notin> set r"
    and n: "n \<in> set names" "prefix (pre @ r @ ''/'') n" by blast
  from n(2) obtain rest where rest: "n = pre @ r @ CHR ''/'' # rest" by (auto simp: prefix_def)
  then have p: "prefix pre n" by (simp add: prefix_def)
  from rest have "drop (length pre) n = r @ CHR ''/'' # rest" by simp
  with r(2) have "upto_delim ''/'' (drop (length pre) n) = Some (r @ ''/'')"
    by (simp add: upto_slash_Some)
  with n(1) p r(1) show "q \<in> ?L"
    by (auto simp: direct_subs_def set_map_filter_iff)
qed

lemma distinct_direct_subs: "distinct (direct_subs pre names)"
  by (simp add: direct_subs_def)

lemma query_results_origin:
  assumes "a \<in> set (query_results pre ''/'' names)"
  shows "\<exists>n\<in>set names. prefix pre n \<and> prefix (Prefix a @ Name a) n
           \<and> prefix pre (Prefix a @ Name a)"
proof -
  from assms consider
    (obj) n where "n \<in> set (direct_items pre names)" "a = object_result n"
  | (sub) q where "q \<in> set (direct_subs pre names)" "a = prefix_result q"
    by (auto simp: query_results_slash)
  then show ?thesis
  proof cases
    case obj
    then show ?thesis by (auto simp: set_direct_items object_result_def)
  next
    case sub
    from sub(1) obtain r n where "q = pre @ r @ ''/''" "n \<in> set names" "prefix (pre @ r @ ''/'') n"
      by (auto simp: set_direct_subs)
    moreover from this have "prefix pre n" by (auto simp: prefix_def)
    ultimately show ?thesis using sub(2) by (auto simp: prefix_result_def)
  qed
qed

lemma names_under:
  "filter (prefix pre) (bucket_names (under pre w) b) = filter (prefix pre) (bucket_names w b)"
proof -
  have "filter (prefix pre) (map snd (filter (\<lambda>k. fst k = b)
          (map fst (filter (\<lambda>(k, d). prefix pre (snd k)) objs))))
      = filter (prefix pre) (map snd (filter (\<lambda>k. fst k = b) (map fst objs)))"
    for objs :: "((string \<times> string) \<times> bytes) list"
    by (induction objs) auto
  then show ?thesis
    by (simp add: bucket_names_def under_def remdups_filter [symmetric])
qed

lemma query_results_cong:
  "filter (prefix pre) ns = filter (prefix pre) ns' \<Longrightarrow>
     query_results pre d ns = query_results pre d ns'"
  by (simp add: query_results_def)

lemma iterate_items: "iterate (map Item as) acc = Returns (acc @ as)"
  by (induction as arbitrary: acc) simp_all

lemma iterate_failure: "iterate (map Item as @ Failure e # rest) acc = Exits e"
  by (induction as arbitrary: acc) simp_all

lemma join_all_map: "join_all as fp = fp @ map (\<lambda>a. Join [Prefix a, Name a]) as"
  by (induction as arbitrary: fp) simp_all

lemma trace_list_paths:
  "trace (snd (list_paths en w b pre d)) = trace w @ [Query b pre d]"
  by (simp add: list_paths_def getObjectsAttrs_def bucket_Objects_def log_event_def
      split: outcome.splits prod.splits)

lemma list_paths_no_fault:
  "iter_fault en = None \<Longrightarrow>
     fst (list_paths en w b pre d)
       = Returns (map (\<lambda>a. Join [Prefix a, Name a]) (query_results pre d (bucket_names w b)))"
  by (simp add: list_paths_def getObjectsAttrs_def bucket_Objects_def iterate_items join_all_map)

lemma list_paths_fault:
  "iter_fault en = Some (n, e) \<Longrightarrow> fst (list_paths en w b pre d) = Exits e"
  by (simp add: list_paths_def getObjectsAttrs_def bucket_Objects_def iterate_failure)

lemma list_paths_under:
  "fst (list_paths en (under pre w) b pre d) = fst (list_paths en w b pre d)"
  using query_results_cong [OF names_under [of pre w b], of d]
  by (simp add: list_paths_def getObjectsAttrs_def bucket_Objects_def
      split: option.splits prod.splits outcome.splits)

section \<open>Facts about the transfers\<close>

lemma opened_Download:
  "opened (snd (Download en w b src dst))
     = (if fst (handle_Attrs en w b src) = None \<and> file_fault en dst = None
        then LocalFile dst # opened w else opened w)"
  by (auto simp: Download_def handle_Attrs_def os_OpenFile_def handle_NewReader_def
      Copy_to_file_def write_file_def deferred_def Reader_Close_def release_stream_def
      log_event_def open_stream_def
      split: option.splits prod.splits sum.splits outcome.splits)

lemma opened_Upload:
  "opened (snd (Upload en w b p src))
     = (if file_fault en src = None \<and> map_of (files w) src \<noteq> None
        then LocalFile src # opened w else opened w)"
  by (auto simp: Upload_def os_Open_def Copy_to_writer_def transferred_def Writer_Close_def
      deferred_def release_stream_def log_event_def open_stream_def
      split: option.splits prod.splits sum.splits outcome.splits)

lemma opened_Read: "opened (snd (Read en w b p)) = opened w"
  by (auto simp: Read_def NewReader_def handle_Attrs_def handle_NewReader_def ReadAll_def
      deferred_def Reader_Close_def release_stream_def log_event_def open_stream_def
      split: option.splits prod.splits sum.splits outcome.splits)

text \<open>
  Whenever \<open>NewReader\<close> fails, \<open>Read\<close> panics; when it succeeds, \<open>Read\<close> returns what
  \<open>ReadAll\<close> delivers and the reader is released.
\<close>

lemma Read_panics_when_NewReader_fails:
  "fst (NewReader en w b p) = Inl err \<Longrightarrow> fst (Read en w b p) = Panics"
  by (auto simp: Read_def deferred_def Reader_Close_def split: prod.splits sum.splits)

lemma Read_returns_when_NewReader_succeeds:
  "NewReader en w b p = (Inr (s, d), w1) \<Longrightarrow>
     fst (Read en w b p) = Returns (transferred en d)
     \<and> opened (snd (Read en w b p)) = remove1 s (opened w1)"
  by (auto simp: Read_def deferred_def Reader_Close_def ReadAll_def release_stream_def log_event_def
      split: prod.splits sum.splits option.splits)

text \<open>
  When the flush at the close of the writer succeeds, an upload that returned no error
  followed by a read that returned no error gives back the bytes of the local file.
\<close>

lemma Upload_then_Read_roundtrip:
  assumes "fst (Upload en w b p src) = Returns None"
    and "close_fault en = None"
    and "map_of (files w) src = Some d"
    and "fst (Read en' (snd (Upload en w b p src)) b p) = Returns (c, None)"
  shows "c = d"
proof -
  have cf: "copy_fault en = None" and ff: "file_fault en src = None"
    using assms(1,3)
    by (auto simp: Upload_def os_Open_def Copy_to_writer_def transferred_def deferred_def
        Writer_Close_def split: option.splits prod.splits sum.splits if_splits)
  have obj: "map_of (objects (snd (Upload en w b p src))) (b, p) = Some d"
    using cf ff assms(2,3)
    by (simp add: Upload_def os_Open_def Copy_to_writer_def transferred_def deferred_def
        Writer_Close_def release_stream_def log_event_def open_stream_def update_conv')
  show ?thesis
    using assms(4) obj
    by (auto simp: Read_def NewReader_def handle_Attrs_def handle_NewReader_def ReadAll_def
        transferred_def deferred_def Reader_Close_def release_stream_def log_event_def
        open_stream_def split: option.splits prod.splits sum.splits)
qed

section \<open>The claims\<close>

text \<open>
  C1. For every (bucket, path), \<open>Read\<close> returns the whole content of the object or an
  error value, and releases the reader in both cases, also when opening the reader
  fails. The code does not do this when the object is absent: \<open>NewReader\<close> returns a nil
  reader with the error, the deferred \<open>f.Close()\<close> then runs on the nil reader, and
  \<open>Read\<close> panics instead of returning the error.
\<close>

theorem Read_of_missing_object_panics:
  "fst (NewReader no_faults transfer_world ''b'' ''missing'') = Inl ErrObjectNotExist
   \<and> fst (Read no_faults transfer_world ''b'' ''missing'') = Panics"
  by (simp add: Read_def NewReader_def handle_Attrs_def deferred_def Reader_Close_def
      no_faults_def transfer_world_def)

text \<open>
  C2, as amended. When \<open>Download\<close>, \<open>Upload\<close> or \<open>Read\<close> ends, on any path, the open
  streams are those that were open before, plus the local file the operation opened:
  every remote reader and writer it opened is released, and the local file handle of
  \<open>Download\<close> and \<open>Upload\<close> is not closed by the operation.
\<close>

theorem operations_release_remote_streams:
  "opened (snd (Download en w b src dst))
     = (if fst (handle_Attrs en w b src) = None \<and> file_fault en dst = None
        then LocalFile dst # opened w else opened w)
   \<and> opened (snd (Upload en w b p lsrc))
     = (if file_fault en lsrc = None \<and> map_of (files w) lsrc \<noteq> None
        then LocalFile lsrc # opened w else opened w)
   \<and> opened (snd (Read en w b p)) = opened w"
  by (simp only: opened_Download opened_Upload opened_Read simp_thms)

theorem operations_release_remote_streams_witness:
  "fst (handle_Attrs no_faults transfer_world ''b'' ''obj'') = None
   \<and> file_fault no_faults ''out'' = None
   \<and> opened (snd (Download no_faults transfer_world ''b'' ''obj'' ''out''))
       = LocalFile ''out'' # opened transfer_world
   \<and> map_of (files transfer_world) ''src'' \<noteq> None
   \<and> opened (snd (Upload no_faults transfer_world ''b'' ''obj'' ''src''))
       = LocalFile ''src'' # opened transfer_world
   \<and> opened (snd (Read no_faults transfer_world ''b'' ''obj'')) = opened transfer_world"
proof -
  have a: "fst (handle_Attrs no_faults transfer_world ''b'' ''obj'') = None"
    by (simp add: handle_Attrs_def no_faults_def transfer_world_def)
  have f: "file_fault no_faults ''out'' = None" "file_fault no_faults ''src'' = None"
    by (simp_all add: no_faults_def)
  have m: "map_of (files transfer_world) ''src'' \<noteq> None"
    by (simp add: transfer_world_def)
  from operations_release_remote_streams
         [of no_faults transfer_world "''b''" "''obj''" "''out''" "''obj''" "''src''"] a f m
  show ?thesis by simp
qed

text \<open>
  C2, as stated, fails: after a download that succeeds, the local destination file is
  still open and was never closed.
\<close>

theorem Download_leaves_local_file_open:
  "opened transfer_world = []
   \<and> fst (Download no_faults transfer_world ''b'' ''obj'' ''out'') = Returns None
   \<and> opened (snd (Download no_faults transfer_world ''b'' ''obj'' ''out'')) = [LocalFile ''out'']
   \<and> Close (LocalFile ''out'')
       \<notin> set (trace (snd (Download no_faults transfer_world ''b'' ''obj'' ''out'')))"
  by (simp add: Download_def handle_Attrs_def os_OpenFile_def handle_NewReader_def
      Copy_to_file_def write_file_def transferred_def deferred_def Reader_Close_def
      release_stream_def log_event_def open_stream_def no_faults_def transfer_world_def)

text \<open>
  C3. \<open>Exist\<close> makes one metadata fetch and returns a boolean: true exactly when the
  fetch succeeds, false for an absent object and false for an access error alike.
\<close>

theorem Exist_true_iff_fetch_succeeds:
  "fst (Exist en w b p) = (fst (handle_Attrs en w b p) = None)
   \<and> snd (Exist en w b p) = log_event (FetchAttrs b p) w
   \<and> (map_of (objects w) (b, p) = None \<longrightarrow> fst (Exist en w b p) = False)
   \<and> (attrs_fault en b p \<noteq> None \<longrightarrow> fst (Exist en w b p) = False)
   \<and> (fst (Exist en w b p) \<longleftrightarrow> attrs_fault en b p = None \<and> map_of (objects w) (b, p) \<noteq> None)"
  by (auto simp: Exist_def handle_Attrs_def split: option.splits)

theorem Exist_true_iff_fetch_succeeds_witness:
  "map_of (objects transfer_world) (''b'', ''missing'') = None
   \<and> fst (Exist no_faults transfer_world ''b'' ''missing'') = False
   \<and> attrs_fault (no_faults\<lparr>attrs_fault := (\<lambda>b p. Some ErrPermission)\<rparr>) ''b'' ''obj'' \<noteq> None
   \<and> fst (Exist (no_faults\<lparr>attrs_fault := (\<lambda>b p. Some ErrPermission)\<rparr>) transfer_world ''b'' ''obj'')
       = False
   \<and> fst (Exist no_faults transfer_world ''b'' ''obj'') = True"
proof -
  have m: "map_of (objects transfer_world) (''b'', ''missing'') = None"
    by (simp add: transfer_world_def)
  have o: "map_of (objects transfer_world) (''b'', ''obj'') \<noteq> None"
    by (simp add: transfer_world_def)
  have f: "attrs_fault (no_faults\<lparr>attrs_fault := (\<lambda>b p. Some ErrPermission)\<rparr>) ''b'' ''obj'' \<noteq> None"
    by simp
  have g: "attrs_fault no_faults ''b'' ''obj'' = None" by (simp add: no_faults_def)
  from Exist_true_iff_fetch_succeeds [of no_faults transfer_world "''b''" "''missing''"]
       Exist_true_iff_fetch_succeeds
         [of "no_faults\<lparr>attrs_fault := (\<lambda>b p. Some ErrPermission)\<rparr>" transfer_world "''b''" "''obj''"]
       Exist_true_iff_fetch_succeeds [of no_faults transfer_world "''b''" "''obj''"]
       m o f g
  show ?thesis by blast
qed

text \<open>
  C4, as amended. For every path \<open>p\<close> that ends in neither a slash nor a space,
  \<open>ListDirectChildren\<close> queries the prefix \<open>p/\<close>; the objects whose name does not begin
  with \<open>p/\<close>, among them those that share \<open>p\<close> only as a string prefix, do not change
  its result; and every result it returns is the join of an entry that begins with
  \<open>p/\<close> and is the name, or the beginning of the name, of an object under \<open>p/\<close>.
\<close>

theorem ListDirectChildren_lists_only_under_path:
  assumes "p = [] \<or> last p \<notin> {CHR '' '', CHR ''/''}"
  shows "trace (snd (ListDirectChildren en w b p)) = trace w @ [Query b (p @ ''/'') ''/'']
       \<and> fst (ListDirectChildren en (under (p @ ''/'') w) b p) = fst (ListDirectChildren en w b p)
       \<and> (\<forall>rs. fst (ListDirectChildren en w b p) = Returns rs \<longrightarrow>
            (\<exists>as :: ObjectAttrs list. rs = map (\<lambda>a. Join [Prefix a, Name a]) as
                 \<and> (\<forall>a\<in>set as. \<exists>n\<in>set (bucket_names w b).
                       prefix (p @ ''/'') n \<and> prefix (Prefix a @ Name a) n
                       \<and> prefix (p @ ''/'') (Prefix a @ Name a))))"
proof -
  have t: "TrimRight p '' /'' = p"
    using assms by (intro TrimRight_id) auto
  have 1: "trace (snd (ListDirectChildren en w b p)) = trace w @ [Query b (p @ ''/'') ''/'']"
    by (simp add: ListDirectChildren_def t trace_list_paths)
  have 2: "fst (ListDirectChildren en (under (p @ ''/'') w) b p) = fst (ListDirectChildren en w b p)"
    by (simp add: ListDirectChildren_def t list_paths_under)
  have 3: "\<exists>as :: ObjectAttrs list. rs = map (\<lambda>a. Join [Prefix a, Name a]) as
                 \<and> (\<forall>a\<in>set as. \<exists>n\<in>set (bucket_names w b).
                       prefix (p @ ''/'') n \<and> prefix (Prefix a @ Name a) n
                       \<and> prefix (p @ ''/'') (Prefix a @ Name a))"
    if r: "fst (ListDirectChildren en w b p) = Returns rs" for rs
  proof (cases "iter_fault en")
    case None
    with r have rs: "rs = map (\<lambda>a. Join [Prefix a, Name a])
                       (query_results (p @ ''/'') ''/'' (bucket_names w b))"
      by (simp add: ListDirectChildren_def t list_paths_no_fault)
    show ?thesis
    proof (rule exI [of _ "query_results (p @ ''/'') ''/'' (bucket_names w b)"], intro conjI ballI)
      show "rs = map (\<lambda>a. Join [Prefix a, Name a])
                   (query_results (p @ ''/'') ''/'' (bucket_names w b))" by (rule rs)
    next
      fix a assume "a \<in> set (query_results (p @ ''/'') ''/'' (bucket_names w b))"
      then show "\<exists>n\<in>set (bucket_names w b).
                       prefix (p @ ''/'') n \<and> prefix (Prefix a @ Name a) n
                       \<and> prefix (p @ ''/'') (Prefix a @ Name a)"
        by (rule query_results_origin)
    qed
  next
    case (Some f)
    then obtain n e where "iter_fault en = Some (n, e)" by (cases f) auto
    with r show ?thesis by (simp add: ListDirectChildren_def list_paths_fault)
  qed
  from 1 2 3 show ?thesis by blast
qed

theorem ListDirectChildren_lists_only_under_path_witness:
  "last ''foo'' \<notin> {CHR '' '', CHR ''/''}
   \<and> fst (ListDirectChildren no_faults listing_world ''b'' ''foo'') = Returns [''foo/a.txt'', ''foo/sub'']
   \<and> fst (ListDirectChildren no_faults (under (''foo'' @ ''/'') listing_world) ''b'' ''foo'')
       = Returns [''foo/a.txt'', ''foo/sub'']
   \<and> trace (snd (ListDirectChildren no_faults listing_world ''b'' ''foo''))
       = trace listing_world @ [Query ''b'' (''foo'' @ ''/'') ''/'']"
proof -
  have l: "last ''foo'' \<notin> {CHR '' '', CHR ''/''}" by simp
  have v: "fst (ListDirectChildren no_faults listing_world ''b'' ''foo'') = Returns [''foo/a.txt'', ''foo/sub'']"
    by (simp add: ListDirectChildren_def TrimRight_def list_paths_def getObjectsAttrs_def
        bucket_Objects_def query_results_def bucket_names_def listing_world_def no_faults_def
        object_result_def prefix_result_def Join_def Clean_def)
  note r = ListDirectChildren_lists_only_under_path [OF disjI2 [OF l], of no_faults listing_world "''b''"]
  from r have a: "trace (snd (ListDirectChildren no_faults listing_world ''b'' ''foo''))
       = trace listing_world @ [Query ''b'' (''foo'' @ ''/'') ''/'']"
    by (rule conjunct1)
  from r have b: "fst (ListDirectChildren no_faults (under (''foo'' @ ''/'') listing_world) ''b'' ''foo'')
       = fst (ListDirectChildren no_faults listing_world ''b'' ''foo'')"
    by (rule conjunct1 [OF conjunct2])
  from b v have c: "fst (ListDirectChildren no_faults (under (''foo'' @ ''/'') listing_world) ''b'' ''foo'')
       = Returns [''foo/a.txt'', ''foo/sub'']"
    by (rule trans)
  from l v c a show ?thesis by (intro conjI)
qed

text \<open>
  C4, as stated for every path without a trailing slash, fails: the path \<open>foo/\<close>
  followed by a space has no trailing slash, the trailing space is trimmed with the
  slash, and the listing returns an object whose name continues that path without a
  slash after it.
\<close>

theorem ListDirectChildren_trailing_space_counterexample:
  "last ''foo/ '' \<noteq> CHR ''/''
   \<and> fst (ListDirectChildren no_faults spaced_world ''b'' ''foo/ '') = Returns [''foo/ bar'']
   \<and> prefix ''foo/ '' ''foo/ bar''
   \<and> \<not> prefix (''foo/ '' @ ''/'') ''foo/ bar''"
  by (simp add: ListDirectChildren_def TrimRight_def list_paths_def getObjectsAttrs_def
      bucket_Objects_def query_results_def bucket_names_def spaced_world_def no_faults_def
      object_result_def prefix_result_def Join_def Clean_def)

text \<open>
  C5. When the iteration does not fail, listing with the empty delimiter returns one
  path for every object whose name has the prefix, nested ones included, and nothing
  for a sub-prefix; listing with the delimiter \<open>/\<close> returns one path for every object
  with no slash after the prefix and one for every sub-prefix that ends at the first
  slash after the prefix, so nothing deeper; each path is \<open>path.Join\<close> of the
  \<open>Prefix\<close> and \<open>Name\<close> of its entry, which never contains two adjacent slashes and,
  for an ordinary name, is the name itself (a sub-prefix without its final slash).
\<close>

theorem list_flat_and_direct_children:
  assumes "iter_fault en = None"
  shows "fst (list_paths en w b pre [])
           = Returns (map (\<lambda>n. Join [[], n]) (filter (prefix pre) (bucket_names w b)))
       \<and> (\<exists>items subs.
            fst (list_paths en w b pre ''/'')
              = Returns (map (\<lambda>n. Join [[], n]) items @ map (\<lambda>q. Join [q, []]) subs)
            \<and> set items = {n \<in> set (bucket_names w b).
                              prefix pre n \<and> CHR ''/'' \<notin> set (drop (length pre) n)}
            \<and> set subs = {pre @ r @ ''/'' | r.
                             CHR ''/'' \<notin> set r
                             \<and> (\<exists>n\<in>set (bucket_names w b). prefix (pre @ r @ ''/'') n)}
            \<and> distinct subs)
       \<and> (\<forall>d rs. fst (list_paths en w b pre d) = Returns rs \<longrightarrow>
            (\<forall>r\<in>set rs. \<not> adjacent_slashes r))
       \<and> (\<forall>n. ordinary n \<longrightarrow> Join [[], n] = n \<and> Join [n @ ''/'', []] = n)"
proof -
  have 1: "fst (list_paths en w b pre [])
           = Returns (map (\<lambda>n. Join [[], n]) (filter (prefix pre) (bucket_names w b)))"
    using assms
    by (simp add: list_paths_no_fault query_results_flat object_result_def comp_def)
  have 2: "fst (list_paths en w b pre ''/'')
           = Returns (map (\<lambda>n. Join [[], n]) (direct_items pre (bucket_names w b))
                      @ map (\<lambda>q. Join [q, []]) (direct_subs pre (bucket_names w b)))"
    using assms
    by (simp add: list_paths_no_fault query_results_slash object_result_def prefix_result_def
        comp_def)
  have 3: "\<forall>r\<in>set rs. \<not> adjacent_slashes r"
    if "fst (list_paths en w b pre d) = Returns rs" for d rs
    using that assms by (auto simp: list_paths_no_fault Join_no_adjacent_slashes)
  have 4: "ordinary n \<longrightarrow> Join [[], n] = n \<and> Join [n @ ''/'', []] = n" for n
    using Join_ordinary by blast
  from 2 have "\<exists>items subs.
            fst (list_paths en w b pre ''/'')
              = Returns (map (\<lambda>n. Join [[], n]) items @ map (\<lambda>q. Join [q, []]) subs)
            \<and> set items = {n \<in> set (bucket_names w b).
                              prefix pre n \<and> CHR ''/'' \<notin> set (drop (length pre) n)}
            \<and> set subs = {pre @ r @ ''/'' | r.
                             CHR ''/'' \<notin> set r
                             \<and> (\<exists>n\<in>set (bucket_names w b). prefix (pre @ r @ ''/'') n)}
            \<and> distinct subs"
    using set_direct_items set_direct_subs distinct_direct_subs by blast
  with 1 3 4 show ?thesis by blast
qed

theorem list_flat_and_direct_children_witness:
  "iter_fault no_faults = None
   \<and> fst (list_paths no_faults nested_world ''b'' ''foo/'' [])
       = Returns [''foo/a.txt'', ''foo/sub/c.txt'', ''foo/sub/d/e'']
   \<and> fst (list_paths no_faults nested_world ''b'' ''foo/'' ''/'')
       = Returns [''foo/a.txt'', ''foo/sub'']
   \<and> ordinary ''foo/sub/d/e''
   \<and> Join [[], ''foo/sub/d/e''] = ''foo/sub/d/e''"
proof -
  have f: "iter_fault no_faults = None" by (simp add: no_faults_def)
  have n: "bucket_names nested_world ''b'' = [''foo/a.txt'', ''foo/sub/c.txt'', ''foo/sub/d/e'']"
    by (simp add: bucket_names_def nested_world_def)
  have o: "ordinary ''foo/sub/d/e''" by (simp add: ordinary_def)
  note r = list_flat_and_direct_children [OF f, of nested_world "''b''" "''foo/''"]
  from r have a: "fst (list_paths no_faults nested_world ''b'' ''foo/'' [])
       = Returns (map (\<lambda>n. Join [[], n]) (filter (prefix ''foo/'') (bucket_names nested_world ''b'')))"
    by (rule conjunct1)
  have a': "fst (list_paths no_faults nested_world ''b'' ''foo/'' [])
       = Returns [''foo/a.txt'', ''foo/sub/c.txt'', ''foo/sub/d/e'']"
    unfolding a n by (simp add: Join_def Clean_def)
  have d: "fst (list_paths no_faults nested_world ''b'' ''foo/'' ''/'')
       = Returns [''foo/a.txt'', ''foo/sub'']"
    by (simp add: list_paths_def getObjectsAttrs_def bucket_Objects_def query_results_def n
        no_faults_def object_result_def prefix_result_def Join_def Clean_def)
  from r o have j: "Join [[], ''foo/sub/d/e''] = ''foo/sub/d/e''" by blast
  from f a' d o j show ?thesis by (intro conjI)
qed

text \<open>
  C6. In the loop of \<open>getObjectsAttrs\<close> an error of the iterator other than the end of
  the results ends the process, whatever was accumulated before it and whatever would
  follow, so no partial result is returned; the end of the results ends the loop and
  the accumulated results are returned. The same holds for \<open>getObjectsAttrs\<close> and \<open>list\<close>
  as a whole.
\<close>

theorem iteration_error_is_fatal:
  "(iter_fault en = None \<longrightarrow>
      fst (getObjectsAttrs en w b sp d) = Returns (query_results sp d (bucket_names w b)))
   \<and> (\<forall>n e. iter_fault en = Some (n, e) \<longrightarrow>
        fst (getObjectsAttrs en w b sp d) = Exits e \<and> fst (list_paths en w b sp d) = Exits e)
   \<and> iterate (map Item as) acc = Returns (acc @ as)
   \<and> iterate (map Item as @ Failure err # rest) acc = Exits err"
  using iterate_items [of _ "[]"] iterate_failure [of _ _ "[]" "[]"]
  by (auto simp: getObjectsAttrs_def list_paths_def bucket_Objects_def iterate_items iterate_failure)

theorem iteration_error_is_fatal_witness:
  "iter_fault env_iter_fails = Some (1, ErrNetwork)
   \<and> fst (getObjectsAttrs env_iter_fails listing_world ''b'' ''foo/'' []) = Exits ErrNetwork
   \<and> fst (list_paths env_iter_fails listing_world ''b'' ''foo/'' []) = Exits ErrNetwork
   \<and> iter_fault no_faults = None
   \<and> fst (getObjectsAttrs no_faults listing_world ''b'' ''foo/'' [])
       = Returns [\<lparr>Prefix = [], Name = ''foo/a.txt''\<rparr>, \<lparr>Prefix = [], Name = ''foo/sub/c.txt''\<rparr>]"
proof -
  have f: "iter_fault env_iter_fails = Some (1, ErrNetwork)"
    by (simp add: env_iter_fails_def no_faults_def)
  have g: "iter_fault no_faults = None" by (simp add: no_faults_def)
  have q: "query_results ''foo/'' [] (bucket_names listing_world ''b'')
       = [\<lparr>Prefix = [], Name = ''foo/a.txt''\<rparr>, \<lparr>Prefix = [], Name = ''foo/sub/c.txt''\<rparr>]"
    by (simp add: query_results_def bucket_names_def listing_world_def object_result_def)
  from iteration_error_is_fatal [of env_iter_fails listing_world "''b''" "''foo/''" "[]"] f
       iteration_error_is_fatal [of no_faults listing_world "''b''" "''foo/''" "[]"] g q
  show ?thesis by simp
qed

text \<open>
  C7. The first call \<open>Download\<close> makes is the metadata fetch of the source object; when
  the object is absent it returns an error after that one call: no local file is
  opened or created, and no stream is opened.
\<close>

theorem Download_probes_before_transfer:
  "(\<exists>evs. trace (snd (Download en w b src dst)) = trace w @ FetchAttrs b src # evs)
   \<and> (map_of (objects w) (b, src) = None \<longrightarrow>
        (\<exists>err. fst (Download en w b src dst) = Returns (Some err))
        \<and> files (snd (Download en w b src dst)) = files w
        \<and> opened (snd (Download en w b src dst)) = opened w
        \<and> trace (snd (Download en w b src dst)) = trace w @ [FetchAttrs b src])"
  by (auto simp: Download_def handle_Attrs_def os_OpenFile_def handle_NewReader_def
      Copy_to_file_def write_file_def deferred_def Reader_Close_def release_stream_def
      log_event_def open_stream_def
      split: option.splits prod.splits sum.splits outcome.splits)

theorem Download_probes_before_transfer_witness:
  "map_of (objects transfer_world) (''b'', ''missing'') = None
   \<and> fst (Download no_faults transfer_world ''b'' ''missing'' ''out'') = Returns (Some ErrObjectNotExist)
   \<and> files (snd (Download no_faults transfer_world ''b'' ''missing'' ''out'')) = [(''src'', ''new'')]
   \<and> opened (snd (Download no_faults transfer_world ''b'' ''missing'' ''out'')) = []
   \<and> trace (snd (Download no_faults transfer_world ''b'' ''missing'' ''out'')) = [FetchAttrs ''b'' ''missing'']"
proof -
  have h: "map_of (objects transfer_world) (''b'', ''missing'') = None"
    by (simp add: transfer_world_def)
  have e: "fst (Download no_faults transfer_world ''b'' ''missing'' ''out'') = Returns (Some ErrObjectNotExist)"
    by (simp add: Download_def handle_Attrs_def no_faults_def transfer_world_def)
  from Download_probes_before_transfer [of no_faults transfer_world "''b''" "''missing''" "''out''"] h e
  show ?thesis by (simp add: transfer_world_def log_event_def)
qed

text \<open>
  C8. Once the local source file is open, \<open>Upload\<close> opens the remote writer and closes it
  as its last call on every path, also when the copy breaks; the error of that close is
  dropped: when the copy succeeds, \<open>Upload\<close> returns no error even if the flush at the
  close fails, and the store is then unchanged.
\<close>

theorem Upload_closes_writer_drops_close_error:
  assumes "file_fault en src = None" and "map_of (files w) src = Some d"
  shows "(\<exists>evs. trace (snd (Upload en w b p src))
            = trace w @ OpenLocal src # OpenWriter b p # evs @ [Close (RemoteWriter b p)])
       \<and> opened (snd (Upload en w b p src)) = LocalFile src # opened w
       \<and> (\<forall>n e. copy_fault en = Some (n, e) \<longrightarrow> fst (Upload en w b p src) = Returns (Some e))
       \<and> (copy_fault en = None \<longrightarrow> fst (Upload en w b p src) = Returns None)
       \<and> (close_fault en \<noteq> None \<longrightarrow> objects (snd (Upload en w b p src)) = objects w)"
  using assms
  by (auto simp: Upload_def os_Open_def Copy_to_writer_def transferred_def Writer_Close_def
      deferred_def release_stream_def log_event_def open_stream_def
      split: option.splits prod.splits sum.splits outcome.splits)

theorem Upload_closes_writer_drops_close_error_witness:
  "file_fault env_close_fails ''src'' = None
   \<and> map_of (files transfer_world) ''src'' = Some ''new''
   \<and> copy_fault env_close_fails = None
   \<and> close_fault env_close_fails \<noteq> None
   \<and> fst (Upload env_close_fails transfer_world ''b'' ''obj'' ''src'') = Returns None
   \<and> objects (snd (Upload env_close_fails transfer_world ''b'' ''obj'' ''src'')) = [((''b'', ''obj''), ''old'')]
   \<and> opened (snd (Upload env_close_fails transfer_world ''b'' ''obj'' ''src'')) = [LocalFile ''src'']"
proof -
  have a: "file_fault env_close_fails ''src'' = None"
    by (simp add: env_close_fails_def no_faults_def)
  have b: "map_of (files transfer_world) ''src'' = Some ''new''"
    by (simp add: transfer_world_def)
  have c: "copy_fault env_close_fails = None" "close_fault env_close_fails \<noteq> None"
    by (simp_all add: env_close_fails_def no_faults_def)
  from Upload_closes_writer_drops_close_error [OF a b, of "''b''" "''obj''"] a b c
  show ?thesis by (simp add: transfer_world_def)
qed

text \<open>
  C9. A successful \<open>Upload\<close> of a local file followed by \<open>Read\<close> of the same object
  returns the bytes of the file. The code does not guarantee this: when the flush at the
  close of the writer fails, \<open>Upload\<close> still returns no error, the object keeps its old
  content, and \<open>Read\<close> returns bytes that differ from the uploaded file.
\<close>

theorem Upload_success_then_Read_differs:
  "fst (Upload env_close_fails transfer_world ''b'' ''obj'' ''src'') = Returns None
   \<and> map_of (files transfer_world) ''src'' = Some ''new''
   \<and> fst (Read no_faults (snd (Upload env_close_fails transfer_world ''b'' ''obj'' ''src'')) ''b'' ''obj'')
       = Returns (''old'', None)"
  by (simp add: Upload_def os_Open_def Copy_to_writer_def transferred_def Writer_Close_def
      deferred_def release_stream_def log_event_def open_stream_def env_close_fails_def
      Read_def NewReader_def handle_Attrs_def handle_NewReader_def ReadAll_def Reader_Close_def
      no_faults_def transfer_world_def)

text \<open>
  C10. \<open>ListDirectChildren\<close> trims every trailing space and slash, in any order, before
  it appends one slash: a path followed by spaces and slashes gives the same call as the
  path alone, and when the path is empty or ends in neither, the query has the prefix
  of the path followed by one slash. So \<open>foo\<close> followed by nothing, by a slash, by a
  space and two slashes, or by two spaces, all query \<open>foo/\<close>, and spaces and slashes
  alone query \<open>/\<close>.
\<close>

theorem ListDirectChildren_normalizes_path:
  assumes "set t \<subseteq> {CHR '' '', CHR ''/''}"
  shows "ListDirectChildren en w b (s @ t) = ListDirectChildren en w b s
       \<and> ((s = [] \<or> last s \<notin> {CHR '' '', CHR ''/''}) \<longrightarrow>
            trace (snd (ListDirectChildren en w b (s @ t))) = trace w @ [Query b (s @ ''/'') ''/''])"
proof -
  have t: "set t \<subseteq> set '' /''" using assms by auto
  have 1: "TrimRight (s @ t) '' /'' = TrimRight s '' /''"
    by (rule TrimRight_append_cutset [OF t])
  have 2: "s = [] \<or> last s \<notin> {CHR '' '', CHR ''/''} \<Longrightarrow> TrimRight s '' /'' = s"
    by (rule TrimRight_id) auto
  show ?thesis
    using 1 2 by (auto simp: ListDirectChildren_def trace_list_paths)
qed

theorem ListDirectChildren_normalizes_path_witness:
  "set '' //'' \<subseteq> {CHR '' '', CHR ''/''}
   \<and> ListDirectChildren no_faults empty_world ''b'' (''foo'' @ '' //'')
       = ListDirectChildren no_faults empty_world ''b'' ''foo''
   \<and> last ''foo'' \<notin> {CHR '' '', CHR ''/''}
   \<and> trace (snd (ListDirectChildren no_faults empty_world ''b'' (''foo'' @ '' //'')))
       = trace empty_world @ [Query ''b'' (''foo'' @ ''/'') ''/'']"
proof -
  have h: "set '' //'' \<subseteq> {CHR '' '', CHR ''/''}" by simp
  have l: "last ''foo'' \<notin> {CHR '' '', CHR ''/''}" by simp
  note r = ListDirectChildren_normalizes_path [OF h, of no_faults empty_world "''b''" "''foo''"]
  from r l h show ?thesis by blast
qed

end
